theory Spec2Isabelle
  imports Main "HOL-Library.Sublist"
begin

section \<open>Token events and attribute maps\<close>

text \<open>
  The tokenizer (golang.org/x/net/html) is an external collaborator.  What \<open>Page.Read\<close>
  sees of it is a finite sequence of tokens followed by one \<open>ErrorToken\<close>, at which
  \<open>z.Err()\<close> is the error that ended tokenization (\<open>io.EOF\<close> on a fully consumed
  input).  A start or self-closing tag carries the map that \<open>AttrMap\<close> builds from
  the tag's attributes.

  A Go \<open>map[string]string\<close> is modelled by an association list read through
  \<open>map_of\<close>: \<open>attrs[k]\<close> yields the empty string for a missing key, the two-valued
  form \<open>_, ok := attrs[k]\<close> tells whether the key is present, and \<open>len(attrs) == 0\<close>
  holds exactly for the empty list.
\<close>

type_synonym attrs = "(string \<times> string) list"

definition attr :: "attrs \<Rightarrow> string \<Rightarrow> string" where
  "attr a k = (case map_of a k of None \<Rightarrow> [] | Some v \<Rightarrow> v)"

definition has_attr :: "attrs \<Rightarrow> string \<Rightarrow> bool" where
  "has_attr a k = (case map_of a k of None \<Rightarrow> False | Some v \<Rightarrow> True)"

datatype token =
    StartTagToken string attrs
  | EndTagToken string
  | SelfClosingTagToken string attrs
  | TextToken string
  | CommentToken string
  | DoctypeToken string

text \<open>
  \<open>log.Fatalln\<close> ends the process; indexing or slicing an empty slice at \<open>len - 1\<close>
  panics.  Both are outcomes of the model.
\<close>

datatype failure = Fatal string | IndexOutOfRange

datatype go_error = EOF | OtherError string

section \<open>MetaReader\<close>

text \<open>
  \<open>Meta.Extra\<close> is a slice of pointers.  Every \<open>Meta\<close> the reader allocates is
  referenced from exactly one place (the \<open>items\<close> slice, or the \<open>Extra\<close> slice of
  one item after it has been popped from \<open>items\<close>), so the pointer structure is a tree
  and is modelled by value.  A write through the pointer returned by \<open>current\<close> or
  \<open>next\<close> is a replacement of the last element of \<open>items\<close>.
\<close>

datatype Meta = Meta (Property: string) (Content: string) (Name: string) (Extra: "Meta list")

record MetaReader =
  m_items :: "Meta list"
  m_inside :: bool
  m_inHead :: bool

definition MetaReader_init :: MetaReader where
  "MetaReader_init = \<lparr>m_items = [], m_inside = False, m_inHead = False\<rparr>"

text \<open>\<open>current\<close>: the last top-level item, if there is one.\<close>

definition MetaReader_current :: "MetaReader \<Rightarrow> Meta option" where
  "MetaReader_current r = (if m_items r = [] then None else Some (last (m_items r)))"

text \<open>A write through the pointer to the last top-level item.\<close>

definition MetaReader_set_last :: "MetaReader \<Rightarrow> Meta \<Rightarrow> MetaReader" where
  "MetaReader_set_last r m = r\<lparr>m_items := butlast (m_items r) @ [m]\<rparr>"

definition MetaReader_next :: "MetaReader \<Rightarrow> MetaReader" where
  "MetaReader_next r = r\<lparr>m_items := m_items r @ [Meta [] [] [] []]\<rparr>"

definition MetaReader_pop :: "MetaReader \<Rightarrow> failure + (Meta \<times> MetaReader)" where
  "MetaReader_pop r =
     (if m_items r = [] then Inl IndexOutOfRange
      else Inr (last (m_items r), r\<lparr>m_items := butlast (m_items r)\<rparr>))"

definition makeCurrentExtra :: "MetaReader \<Rightarrow> failure + MetaReader" where
  "makeCurrentExtra r =
     (case MetaReader_pop r of
        Inl f \<Rightarrow> Inl f
      | Inr (e, r') \<Rightarrow>
          (case MetaReader_current r' of
             None \<Rightarrow> Inl (Fatal ''No prior meta tag to associate the current tag with.'')
           | Some cur \<Rightarrow>
               Inr (MetaReader_set_last r'
                      (Meta (Property cur) (Content cur) (Name cur) (Extra cur @ [e])))))"

definition MetaReader_HandleStart :: "MetaReader \<Rightarrow> string \<Rightarrow> attrs \<Rightarrow> failure + MetaReader" where
  "MetaReader_HandleStart r tn a =
     (if tn = ''head'' then Inr (r\<lparr>m_inHead := True\<rparr>)
      else if tn = ''meta'' then
        (if \<not> m_inHead r then Inr r
         else
           let r1 = r\<lparr>m_inside := True\<rparr>;
               c = MetaReader_current r1;
               r2 = MetaReader_next r1;
               m = Meta (attr a ''property'') (attr a ''content'') (attr a ''name'') [];
               r3 = MetaReader_set_last r2 m
           in if (case c of None \<Rightarrow> False
                  | Some cur \<Rightarrow> prefix (Property cur @ '':'') (Property m))
              then makeCurrentExtra r3
              else Inr r3)
      else Inr r)"

definition MetaReader_HandleEnd :: "MetaReader \<Rightarrow> string \<Rightarrow> MetaReader" where
  "MetaReader_HandleEnd r tn =
     (if tn = ''head'' then r\<lparr>m_inHead := False\<rparr>
      else if tn = ''meta'' then r\<lparr>m_inside := False\<rparr>
      else r)"

definition MetaReader_HandleText :: "MetaReader \<Rightarrow> string \<Rightarrow> MetaReader" where
  "MetaReader_HandleText r text =
     (if m_inside r \<and> m_inHead r then
        (case MetaReader_current r of
           None \<Rightarrow> r
         | Some cur \<Rightarrow>
             if Content cur = []
             then MetaReader_set_last r
                    (Meta (Property cur) (Content cur @ text) (Name cur) (Extra cur))
             else r)
      else r)"

definition MetaReader_Done :: "MetaReader \<Rightarrow> MetaReader" where
  "MetaReader_Done r = r"

text \<open>
  What one token of the \<open>Page.Read\<close> loop does to the MetaReader: a start tag calls
  \<open>HandleStart\<close>, an end tag \<open>HandleEnd\<close>, a self-closing tag both in turn, text
  \<open>HandleText\<close>; the switch has no case for any other token type.
\<close>

fun MetaReader_step :: "MetaReader \<Rightarrow> token \<Rightarrow> failure + MetaReader" where
  "MetaReader_step r (StartTagToken tn a) = MetaReader_HandleStart r tn a"
| "MetaReader_step r (EndTagToken tn) = Inr (MetaReader_HandleEnd r tn)"
| "MetaReader_step r (SelfClosingTagToken tn a) =
     (case MetaReader_HandleStart r tn a of
        Inl f \<Rightarrow> Inl f
      | Inr r' \<Rightarrow> Inr (MetaReader_HandleEnd r' tn))"
| "MetaReader_step r (TextToken text) = Inr (MetaReader_HandleText r text)"
| "MetaReader_step r (CommentToken c) = Inr r"
| "MetaReader_step r (DoctypeToken d) = Inr r"

fun MetaReader_run :: "MetaReader \<Rightarrow> token list \<Rightarrow> failure + MetaReader" where
  "MetaReader_run r [] = Inr r"
| "MetaReader_run r (t # ts) =
     (case MetaReader_step r t of Inl f \<Rightarrow> Inl f | Inr r' \<Rightarrow> MetaReader_run r' ts)"

text \<open>Nesting is one level deep: no entry of an \<open>Extra\<close> list has entries of its own.\<close>

definition one_level :: "Meta list \<Rightarrow> bool" where
  "one_level ms = (\<forall>m \<in> set ms. \<forall>e \<in> set (Extra m). Extra e = [])"

section \<open>SchemaReader\<close>

text \<open>
  \<open>ItemScope\<close> objects are shared: the same pointer sits in the \<open>stack\<close> of the
  reader and in the \<open>Children\<close> of its parent (or in \<open>items\<close>), and is written
  through the stack.  The model therefore keeps an explicit store: \<open>s_heap\<close> holds
  the \<open>ItemScope\<close> objects allocated so far, a pointer is an index into it, and
  \<open>&ItemScope{}\<close> appends a zero-valued object.  An \<open>ItemProp\<close> is referenced only
  from the \<open>Props\<close> of one scope and is kept there by value.
\<close>

record ItemProp =
  ip_TagName :: string
  ip_ItemProp :: string
  ip_Content :: string
  ip_HREF :: string
  ip_DateTime :: string

record ItemScope =
  is_TagName :: string
  is_ItemType :: string
  is_ItemProp :: string
  Props :: "ItemProp list"
  Children :: "nat list"

definition ItemScope_zero :: ItemScope where
  "ItemScope_zero =
     \<lparr>is_TagName = [], is_ItemType = [], is_ItemProp = [], Props = [], Children = []\<rparr>"

record SchemaReader =
  s_heap :: "ItemScope list"
  s_items :: "nat list"
  s_stack :: "nat list"
  s_breadcrumbs :: "bool list"
  s_insideProp :: bool
  s_inHead :: bool

definition SchemaReader_init :: SchemaReader where
  "SchemaReader_init =
     \<lparr>s_heap = [], s_items = [], s_stack = [], s_breadcrumbs = [],
      s_insideProp = False, s_inHead = False\<rparr>"

text \<open>
  \<open>current\<close>: the top of the scope stack, if any.  The fresh object it returns together
  with \<open>false\<close> is never read or written by a caller, and is left out.
\<close>

definition SchemaReader_current :: "SchemaReader \<Rightarrow> nat option" where
  "SchemaReader_current r = (if s_stack r = [] then None else Some (last (s_stack r)))"

definition SchemaReader_next :: "SchemaReader \<Rightarrow> nat \<times> SchemaReader" where
  "SchemaReader_next r =
     (let s = length (s_heap r);
          h = s_heap r @ [ItemScope_zero];
          r1 = (if s_stack r \<noteq> []
                then (let cur = last (s_stack r)
                      in r\<lparr>s_heap := h[cur := (h ! cur)\<lparr>Children := Children (h ! cur) @ [s]\<rparr>]\<rparr>)
                else r\<lparr>s_heap := h, s_items := s_items r @ [s]\<rparr>)
      in (s, r1\<lparr>s_stack := s_stack r1 @ [s]\<rparr>))"

definition SchemaReader_pop :: "SchemaReader \<Rightarrow> failure + SchemaReader" where
  "SchemaReader_pop r =
     (if s_stack r = [] then Inl IndexOutOfRange
      else Inr (r\<lparr>s_stack := butlast (s_stack r)\<rparr>))"

definition SchemaReader_HandleStart :: "SchemaReader \<Rightarrow> string \<Rightarrow> attrs \<Rightarrow> SchemaReader" where
  "SchemaReader_HandleStart r0 tn a =
     (let r = (if tn = ''head'' then r0\<lparr>s_inHead := True\<rparr> else r0)
      in if s_inHead r \<or> a = [] then r
         else if has_attr a ''itemscope'' then
           (let (s, r1) = SchemaReader_next r;
                h = s_heap r1;
                r2 = r1\<lparr>s_heap := h[s := (h ! s)\<lparr>is_ItemProp := attr a ''itemprop'',
                                                is_TagName := tn,
                                                is_ItemType := attr a ''itemtype''\<rparr>]\<rparr>
            in r2\<lparr>s_breadcrumbs := s_breadcrumbs r2 @ [True]\<rparr>)
         else
           (let r1 =
              (case SchemaReader_current r of
                 None \<Rightarrow> r
               | Some s \<Rightarrow>
                   if has_attr a ''itemprop'' then
                     (let h = s_heap r;
                          p = \<lparr>ip_TagName = tn, ip_ItemProp = attr a ''itemprop'',
                               ip_Content = attr a ''content'', ip_HREF = attr a ''href'',
                               ip_DateTime = attr a ''datetime''\<rparr>
                      in r\<lparr>s_heap := h[s := (h ! s)\<lparr>Props := Props (h ! s) @ [p]\<rparr>],
                           s_insideProp := True\<rparr>)
                   else r)
            in r1\<lparr>s_breadcrumbs := s_breadcrumbs r1 @ [False]\<rparr>))"

definition SchemaReader_HandleEnd :: "SchemaReader \<Rightarrow> string \<Rightarrow> failure + SchemaReader" where
  "SchemaReader_HandleEnd r tn =
     (if s_inHead r then
        (if tn = ''head'' then Inr (r\<lparr>s_inHead := False\<rparr>) else Inr r)
      else
        (let r1 = r\<lparr>s_insideProp := False\<rparr>
         in if s_breadcrumbs r1 \<noteq> [] then
              (let shouldPop = last (s_breadcrumbs r1);
                   r2 = r1\<lparr>s_breadcrumbs := butlast (s_breadcrumbs r1)\<rparr>
               in if shouldPop then SchemaReader_pop r2 else Inr r2)
            else Inr r1))"

definition SchemaReader_HandleText :: "SchemaReader \<Rightarrow> string \<Rightarrow> failure + SchemaReader" where
  "SchemaReader_HandleText r text =
     (if s_insideProp r then
        (case SchemaReader_current r of
           None \<Rightarrow> Inl (Fatal ''No prop to set content from text node'')
         | Some s \<Rightarrow>
             (let h = s_heap r; ps = Props (h ! s)
              in if ps = [] then Inl (Fatal ''No prop to set content from text node'')
                 else Inr (r\<lparr>s_heap :=
                     h[s := (h ! s)\<lparr>Props := butlast ps @ [(last ps)\<lparr>ip_Content := text\<rparr>]\<rparr>]\<rparr>)))
      else Inr r)"

definition SchemaReader_Done :: "SchemaReader \<Rightarrow> SchemaReader" where
  "SchemaReader_Done r = r"

fun SchemaReader_step :: "SchemaReader \<Rightarrow> token \<Rightarrow> failure + SchemaReader" where
  "SchemaReader_step r (StartTagToken tn a) = Inr (SchemaReader_HandleStart r tn a)"
| "SchemaReader_step r (EndTagToken tn) = SchemaReader_HandleEnd r tn"
| "SchemaReader_step r (SelfClosingTagToken tn a) =
     SchemaReader_HandleEnd (SchemaReader_HandleStart r tn a) tn"
| "SchemaReader_step r (TextToken text) = SchemaReader_HandleText r text"
| "SchemaReader_step r (CommentToken c) = Inr r"
| "SchemaReader_step r (DoctypeToken d) = Inr r"

fun SchemaReader_run :: "SchemaReader \<Rightarrow> token list \<Rightarrow> failure + SchemaReader" where
  "SchemaReader_run r [] = Inr r"
| "SchemaReader_run r (t # ts) =
     (case SchemaReader_step r t of Inl f \<Rightarrow> Inl f | Inr r' \<Rightarrow> SchemaReader_run r' ts)"

text \<open>
  A token stream is properly nested when every end tag closes the most recently opened
  start tag of the same name and no start tag is left open at the end of the stream
  (the first argument lists the open tags, innermost first).
\<close>

fun properly_nested :: "string list \<Rightarrow> token list \<Rightarrow> bool" where
  "properly_nested os [] = (os = [])"
| "properly_nested os (StartTagToken tn a # ts) = properly_nested (tn # os) ts"
| "properly_nested os (EndTagToken tn # ts) =
     (case os of [] \<Rightarrow> False | t # os' \<Rightarrow> t = tn \<and> properly_nested os' ts)"
| "properly_nested os (SelfClosingTagToken tn a # ts) = properly_nested os ts"
| "properly_nested os (TextToken text # ts) = properly_nested os ts"
| "properly_nested os (CommentToken c # ts) = properly_nested os ts"
| "properly_nested os (DoctypeToken d # ts) = properly_nested os ts"

section \<open>Text normalization\<close>

text \<open>
  \<open>lineFeedReplacer\<close> is the regular expression \<^verbatim>\<open>[\n\r]+\<close> and
  \<open>whitespaceReplacer\<close> is \<^verbatim>\<open>\s+\<close>; in Go's regexp syntax \<^verbatim>\<open>\s\<close> is the
  class of tab, line feed, form feed, carriage return and space.  Both classes hold
  ASCII bytes only, which never occur inside a multi-byte UTF-8 sequence, so matching
  is bytewise.  \<open>ReplaceAll\<close> with a pattern \<open>c+\<close> replaces each maximal run of
  bytes of the class \<open>c\<close>, from the left.
\<close>

definition isLineFeed :: "char \<Rightarrow> bool" where
  "isLineFeed c = (c = CHR 0x0A \<or> c = CHR 0x0D)"

definition isReSpace :: "char \<Rightarrow> bool" where
  "isReSpace c = (c = CHR 0x09 \<or> c = CHR 0x0A \<or> c = CHR 0x0C \<or> c = CHR 0x0D \<or> c = CHR 0x20)"

function ReplaceAll :: "(char \<Rightarrow> bool) \<Rightarrow> string \<Rightarrow> string \<Rightarrow> string" where
  "ReplaceAll c [] repl = []"
| "ReplaceAll c (x # xs) repl =
     (if c x then repl @ ReplaceAll c (dropWhile c xs) repl
      else x # ReplaceAll c xs repl)"
  by pat_completeness auto
termination
  by (relation "measure (\<lambda>(c, xs, repl). length xs)")
     (auto simp: length_dropWhile_le less_Suc_eq_le)

text \<open>
  \<open>strings.TrimSpace\<close> removes leading and then trailing white space as Unicode
  defines it, decoding UTF-8 from either end.  A decoded rune is white space exactly
  when the bytes at that end are the UTF-8 encoding of one of: U+0009 to U+000D,
  U+0020, U+0085, U+00A0, U+1680, U+2000 to U+200A, U+2028, U+2029, U+202F, U+205F,
  U+3000 (an invalid byte decodes to U+FFFD, which is not white space).
\<close>

definition space_encodings :: "string list" where
  "space_encodings =
     [[CHR 0x09], [CHR 0x0A], [CHR 0x0B], [CHR 0x0C], [CHR 0x0D], [CHR 0x20],
      [CHR 0xC2, CHR 0x85], [CHR 0xC2, CHR 0xA0],
      [CHR 0xE1, CHR 0x9A, CHR 0x80],
      [CHR 0xE2, CHR 0x80, CHR 0x80], [CHR 0xE2, CHR 0x80, CHR 0x81],
      [CHR 0xE2, CHR 0x80, CHR 0x82], [CHR 0xE2, CHR 0x80, CHR 0x83],
      [CHR 0xE2, CHR 0x80, CHR 0x84], [CHR 0xE2, CHR 0x80, CHR 0x85],
      [CHR 0xE2, CHR 0x80, CHR 0x86], [CHR 0xE2, CHR 0x80, CHR 0x87],
      [CHR 0xE2, CHR 0x80, CHR 0x88], [CHR 0xE2, CHR 0x80, CHR 0x89],
      [CHR 0xE2, CHR 0x80, CHR 0x8A],
      [CHR 0xE2, CHR 0x80, CHR 0xA8], [CHR 0xE2, CHR 0x80, CHR 0xA9],
      [CHR 0xE2, CHR 0x80, CHR 0xAF],
      [CHR 0xE2, CHR 0x81, CHR 0x9F],
      [CHR 0xE3, CHR 0x80, CHR 0x80]]"

text \<open>The number of bytes of the white-space rune the string starts with, 0 if none.\<close>

definition leading_width :: "string list \<Rightarrow> string \<Rightarrow> nat" where
  "leading_width encs s =
     (case find (\<lambda>e. e \<noteq> [] \<and> prefix e s) encs of None \<Rightarrow> 0 | Some e \<Rightarrow> length e)"

function trim_leading :: "string list \<Rightarrow> string \<Rightarrow> string" where
  "trim_leading encs s =
     (if leading_width encs s = 0 then s
      else trim_leading encs (drop (leading_width encs s) s))"
  by pat_completeness auto
termination
proof (relation "measure (\<lambda>(encs, s). length s)")
  show "wf (measure (\<lambda>(encs, s). length s))" by simp
next
  fix encs :: "string list" and s :: string
  assume w: "leading_width encs s \<noteq> 0"
  then obtain e where "find (\<lambda>e. e \<noteq> [] \<and> prefix e s) encs = Some e"
    by (auto simp: leading_width_def split: option.splits)
  then have "e \<noteq> []" and "prefix e s"
    by (auto simp: find_Some_iff)
  then have "s \<noteq> []" by auto
  with w show "((encs, drop (leading_width encs s) s), (encs, s))
                 \<in> measure (\<lambda>(encs, s). length s)"
    by simp
qed

definition TrimLeft :: "string \<Rightarrow> string" where
  "TrimLeft s = trim_leading space_encodings s"

definition TrimRight :: "string \<Rightarrow> string" where
  "TrimRight s = rev (trim_leading (map rev space_encodings) (rev s))"

definition TrimSpace :: "string \<Rightarrow> string" where
  "TrimSpace s = TrimRight (TrimLeft s)"

text \<open>The three steps of \<open>PageReader.Done\<close> on the collected text.\<close>

definition collapse :: "string \<Rightarrow> string" where
  "collapse t = ReplaceAll isReSpace (ReplaceAll isLineFeed t [CHR 0x0A]) [CHR 0x20]"

definition normalize_text :: "string \<Rightarrow> string" where
  "normalize_text t = TrimSpace (collapse t)"

section \<open>PageReader, Page and the Read loop\<close>

record PageReader =
  p_inTitle :: bool
  p_inBody :: bool
  p_inScript :: bool
  p_text :: string

text \<open>
  The \<open>PageReader\<close> holds a pointer back to its page and writes \<open>Title\<close> and
  \<open>Text\<close> there, so its text and end-of-stream handlers act on the page.
\<close>

record Page =
  URL :: string
  HTML :: string
  Text :: string
  Title :: string
  metaReader :: MetaReader
  schemaReader :: SchemaReader
  pageReader :: PageReader

definition PageReader_HandleStart :: "PageReader \<Rightarrow> string \<Rightarrow> attrs \<Rightarrow> PageReader" where
  "PageReader_HandleStart r tn a =
     (if tn = ''title'' then r\<lparr>p_inTitle := True\<rparr>
      else if tn = ''body'' then r\<lparr>p_inBody := True\<rparr>
      else if tn = ''script'' then r\<lparr>p_inScript := True\<rparr>
      else r)"

definition PageReader_HandleEnd :: "PageReader \<Rightarrow> string \<Rightarrow> PageReader" where
  "PageReader_HandleEnd r tn =
     (if tn = ''title'' then r\<lparr>p_inTitle := False\<rparr>
      else if tn = ''body'' then r\<lparr>p_inBody := False\<rparr>
      else if tn = ''script'' then r\<lparr>p_inScript := False\<rparr>
      else r)"

definition PageReader_HandleText :: "Page \<Rightarrow> string \<Rightarrow> Page" where
  "PageReader_HandleText p text =
     (let r = pageReader p
      in if p_inTitle r then p\<lparr>Title := text\<rparr>
         else if p_inBody r \<and> \<not> p_inScript r
         then p\<lparr>pageReader := r\<lparr>p_text := p_text r @ text\<rparr>\<rparr>
         else p)"

definition PageReader_Done :: "Page \<Rightarrow> Page" where
  "PageReader_Done p =
     (let r = pageReader p;
          t1 = ReplaceAll isLineFeed (p_text r) [CHR 0x0A];
          t2 = ReplaceAll isReSpace t1 [CHR 0x20]
      in p\<lparr>pageReader := r\<lparr>p_text := t2\<rparr>, Text := TrimSpace t2\<rparr>)"

text \<open>
  \<open>Page.Readers\<close> lists the PageReader, the MetaReader and the SchemaReader, and
  every method of \<open>ReaderList\<close> calls the readers in that order.  A reader that ends
  the process ends the call.
\<close>

definition ReaderList_HandleStart :: "Page \<Rightarrow> string \<Rightarrow> attrs \<Rightarrow> failure + Page" where
  "ReaderList_HandleStart p tn a =
     (let p1 = p\<lparr>pageReader := PageReader_HandleStart (pageReader p) tn a\<rparr>
      in case MetaReader_HandleStart (metaReader p1) tn a of
           Inl f \<Rightarrow> Inl f
         | Inr m \<Rightarrow>
             Inr (p1\<lparr>metaReader := m,
                     schemaReader := SchemaReader_HandleStart (schemaReader p1) tn a\<rparr>))"

definition ReaderList_HandleEnd :: "Page \<Rightarrow> string \<Rightarrow> failure + Page" where
  "ReaderList_HandleEnd p tn =
     (let p1 = p\<lparr>pageReader := PageReader_HandleEnd (pageReader p) tn\<rparr>;
          p2 = p1\<lparr>metaReader := MetaReader_HandleEnd (metaReader p1) tn\<rparr>
      in case SchemaReader_HandleEnd (schemaReader p2) tn of
           Inl f \<Rightarrow> Inl f
         | Inr s \<Rightarrow> Inr (p2\<lparr>schemaReader := s\<rparr>))"

definition ReaderList_HandleText :: "Page \<Rightarrow> string \<Rightarrow> failure + Page" where
  "ReaderList_HandleText p text =
     (let p1 = PageReader_HandleText p text;
          p2 = p1\<lparr>metaReader := MetaReader_HandleText (metaReader p1) text\<rparr>
      in case SchemaReader_HandleText (schemaReader p2) text of
           Inl f \<Rightarrow> Inl f
         | Inr s \<Rightarrow> Inr (p2\<lparr>schemaReader := s\<rparr>))"

definition ReaderList_Done :: "Page \<Rightarrow> Page" where
  "ReaderList_Done p =
     (let p1 = PageReader_Done p;
          p2 = p1\<lparr>metaReader := MetaReader_Done (metaReader p1)\<rparr>
      in p2\<lparr>schemaReader := SchemaReader_Done (schemaReader p2)\<rparr>)"

text \<open>One iteration of the loop of \<open>Page.Read\<close> on a token other than \<open>ErrorToken\<close>.\<close>

fun Read_token :: "Page \<Rightarrow> token \<Rightarrow> failure + Page" where
  "Read_token p (TextToken text) = ReaderList_HandleText p text"
| "Read_token p (StartTagToken tn a) = ReaderList_HandleStart p tn a"
| "Read_token p (EndTagToken tn) = ReaderList_HandleEnd p tn"
| "Read_token p (SelfClosingTagToken tn a) =
     (case ReaderList_HandleStart p tn a of
        Inl f \<Rightarrow> Inl f
      | Inr p' \<Rightarrow> ReaderList_HandleEnd p' tn)"
| "Read_token p (CommentToken c) = Inr p"
| "Read_token p (DoctypeToken d) = Inr p"

text \<open>The tokens before the \<open>ErrorToken\<close>, dispatched in order.\<close>

fun Read_tokens :: "Page \<Rightarrow> token list \<Rightarrow> failure + Page" where
  "Read_tokens p [] = Inr p"
| "Read_tokens p (t # ts) =
     (case Read_token p t of Inl f \<Rightarrow> Inl f | Inr p' \<Rightarrow> Read_tokens p' ts)"

text \<open>
  \<open>Page.Read\<close> on the token stream \<open>ts\<close> that ends with an \<open>ErrorToken\<close> whose
  \<open>z.Err()\<close> is \<open>e\<close>.  The returned Go \<open>error\<close> may be \<open>nil\<close>, hence the option.
\<close>

fun Read :: "Page \<Rightarrow> token list \<Rightarrow> go_error \<Rightarrow> failure + (Page \<times> go_error option)" where
  "Read p [] e = Inr (ReaderList_Done p, Some e)"
| "Read p (t # ts) e =
     (case Read_token p t of Inl f \<Rightarrow> Inl f | Inr p' \<Rightarrow> Read p' ts e)"

definition PageReader_init :: PageReader where
  "PageReader_init = \<lparr>p_inTitle = False, p_inBody = False, p_inScript = False, p_text = []\<rparr>"

definition Page_new :: "string \<Rightarrow> Page" where
  "Page_new url =
     \<lparr>URL = url, HTML = [], Text = [], Title = [],
      metaReader = MetaReader_init, schemaReader = SchemaReader_init,
      pageReader = PageReader_init\<rparr>"

text \<open>
  \<open>Scrape\<close>.  The network and the tokenizer are parameters: \<open>get url\<close> is the outcome
  of \<open>http.Get\<close> followed by \<open>ioutil.ReadAll\<close> of the body (\<open>Inl\<close> the error of
  the request, \<open>Inr (Inl err)\<close> the error of reading the body, \<open>Inr (Inr bytes)\<close>
  the document), and \<open>tokenize bytes\<close> is the token stream of the document with the
  error that ends it.
\<close>

definition Scrape ::
  "(string \<Rightarrow> go_error + (go_error + string)) \<Rightarrow> (string \<Rightarrow> token list \<times> go_error) \<Rightarrow>
   string \<Rightarrow> failure + (Page \<times> go_error option)" where
  "Scrape get tokenize url =
     (let p = Page_new url
      in case get url of
           Inl err \<Rightarrow> Inr (p, Some err)
         | Inr body \<Rightarrow>
             (case body of
                Inl err \<Rightarrow> Inr (p, Some err)
              | Inr htmlBytes \<Rightarrow>
                  (let p1 = p\<lparr>HTML := htmlBytes\<rparr>;
                       (ts, e) = tokenize htmlBytes
                   in case Read p1 ts e of
                        Inl f \<Rightarrow> Inl f
                      | Inr (p2, err) \<Rightarrow>
                          if err \<noteq> Some EOF then Inr (p2, err) else Inr (p2, None))))"

section \<open>Invariants used in the proofs\<close>

text \<open>
  A text in which every white-space byte of the class \<^verbatim>\<open>\s\<close> is a single space
  that is not followed by another byte of the class.
\<close>

fun squeezed :: "string \<Rightarrow> bool" where
  "squeezed [] = True"
| "squeezed [x] = (isReSpace x \<longrightarrow> x = CHR 0x20)"
| "squeezed (x # y # zs) =
     ((isReSpace x \<longrightarrow> x = CHR 0x20 \<and> \<not> isReSpace y) \<and> squeezed (y # zs))"

text \<open>
  The scope stack holds one entry per \<open>true\<close> marker, and there are at most as many
  markers as open elements \<open>os\<close>; while the reader is inside the head, the markers
  are bounded by the elements that enclose some open \<open>head\<close>.
\<close>

definition balance_inv :: "string list \<Rightarrow> SchemaReader \<Rightarrow> bool" where
  "balance_inv os r =
     (length (s_stack r) = length (filter id (s_breadcrumbs r)) \<and>
      (if s_inHead r
       then (\<exists>pre post. os = pre @ ''head'' # post \<and> length (s_breadcrumbs r) \<le> length post)
       else length (s_breadcrumbs r) \<le> length os))"

text \<open>Every pointer on the scope stack refers to an allocated \<open>ItemScope\<close>.\<close>

definition heap_valid :: "SchemaReader \<Rightarrow> bool" where
  "heap_valid r = (\<forall>s \<in> set (s_stack r). s < length (s_heap r))"

section \<open>Concrete inputs\<close>

text \<open>\<^verbatim>\<open><head><meta property="og:image" content="a.jpg"/>\<close> followed by two prefixed tags.\<close>

definition og_stream :: "token list" where
  "og_stream =
     [StartTagToken ''head'' [],
      SelfClosingTagToken ''meta'' [(''property'', ''og:image''), (''content'', ''a.jpg'')],
      SelfClosingTagToken ''meta'' [(''property'', ''og:image:width''), (''content'', ''300'')],
      SelfClosingTagToken ''meta'' [(''property'', ''og:image:width:x''), (''content'', ''1'')]]"

definition og_items :: "Meta list" where
  "og_items =
     [Meta ''og:image'' ''a.jpg'' []
        [Meta ''og:image:width'' ''300'' [] [], Meta ''og:image:width:x'' ''1'' [] []]]"

text \<open>The page that \<open>Page.Read\<close> leaves for that stream.\<close>

definition og_page :: Page where
  "og_page =
     \<lparr>URL = ''u'', HTML = [], Text = [], Title = [],
      metaReader = \<lparr>m_items = og_items, m_inside = False, m_inHead = True\<rparr>,
      schemaReader = SchemaReader_init\<lparr>s_inHead := True\<rparr>,
      pageReader = PageReader_init\<rparr>"

text \<open>
  \<^verbatim>\<open><head><meta property="og:image" content="x"/><meta property="og:image:width">300\<close>,
  and the same document with no \<open>content\<close> attribute on the first tag.
\<close>

definition fold_text_stream :: "token list" where
  "fold_text_stream =
     [StartTagToken ''head'' [],
      SelfClosingTagToken ''meta'' [(''property'', ''og:image''), (''content'', ''x'')],
      StartTagToken ''meta'' [(''property'', ''og:image:width'')],
      TextToken ''300'']"

definition fold_text_stream2 :: "token list" where
  "fold_text_stream2 =
     [StartTagToken ''head'' [],
      SelfClosingTagToken ''meta'' [(''property'', ''og:image'')],
      StartTagToken ''meta'' [(''property'', ''og:image:width'')],
      TextToken ''300'']"

text \<open>The MetaReader after \<^verbatim>\<open><head><meta property="og:title" content="The Rock">\<close>.\<close>

definition rock_reader :: MetaReader where
  "rock_reader =
     \<lparr>m_items = [Meta ''og:title'' ''The Rock'' [] []], m_inside = True, m_inHead = True\<rparr>"

text \<open>The tokens of \<^verbatim>\<open>x</meta><meta property="og:title:alt">y\<close> that follow, and the reader then.\<close>

definition rock_later :: "token list" where
  "rock_later =
     [TextToken ''x'', EndTagToken ''meta'',
      StartTagToken ''meta'' [(''property'', ''og:title:alt'')], TextToken ''y'']"

definition rock_final :: MetaReader where
  "rock_final =
     \<lparr>m_items = [Meta ''og:title'' ''The Rock'' [] [Meta ''og:title:alt'' [] [] []]],
      m_inside = True, m_inHead = True\<rparr>"

text \<open>\<^verbatim>\<open><div itemscope>\<close>, and the SchemaReader after it.\<close>

definition unclosed_stream :: "token list" where
  "unclosed_stream = [StartTagToken ''div'' [(''itemscope'', [])]]"

definition scope_open :: SchemaReader where
  "scope_open =
     \<lparr>s_heap = [\<lparr>is_TagName = ''div'', is_ItemType = [], is_ItemProp = [],
                  Props = [], Children = []\<rparr>],
      s_items = [0], s_stack = [0], s_breadcrumbs = [True],
      s_insideProp = False, s_inHead = False\<rparr>"

text \<open>\<^verbatim>\<open><div itemscope><a itemprop="url" href="alice.html" content="c">\<close>, and the reader after it.\<close>

definition alice_attrs :: attrs where
  "alice_attrs = [(''itemprop'', ''url''), (''href'', ''alice.html''), (''content'', ''c'')]"

definition alice_stream :: "token list" where
  "alice_stream = [StartTagToken ''div'' [(''itemscope'', [])], StartTagToken ''a'' alice_attrs]"

definition alice_open :: SchemaReader where
  "alice_open =
     \<lparr>s_heap = [\<lparr>is_TagName = ''div'', is_ItemType = [], is_ItemProp = [],
                  Props = [\<lparr>ip_TagName = ''a'', ip_ItemProp = ''url'', ip_Content = ''c'',
                            ip_HREF = ''alice.html'', ip_DateTime = []\<rparr>],
                  Children = []\<rparr>],
      s_items = [0], s_stack = [0], s_breadcrumbs = [True, False],
      s_insideProp = True, s_inHead = False\<rparr>"

definition alice_prop :: "string \<Rightarrow> ItemProp" where
  "alice_prop c =
     \<lparr>ip_TagName = ''a'', ip_ItemProp = ''url'', ip_Content = c,
      ip_HREF = ''alice.html'', ip_DateTime = []\<rparr>"

text \<open>\<^verbatim>\<open><div itemscope><p>hi</p><span itemprop="name">X</span></div>\<close>.\<close>

definition offer_stream :: "token list" where
  "offer_stream =
     [StartTagToken ''div'' [(''itemscope'', [])],
      StartTagToken ''p'' [], TextToken ''hi'', EndTagToken ''p'',
      StartTagToken ''span'' [(''itemprop'', ''name'')], TextToken ''X'', EndTagToken ''span'',
      EndTagToken ''div'']"

definition offer_final :: SchemaReader where
  "offer_final =
     \<lparr>s_heap = [\<lparr>is_TagName = ''div'', is_ItemType = [], is_ItemProp = [],
                  Props = [], Children = []\<rparr>],
      s_items = [0], s_stack = [], s_breadcrumbs = [],
      s_insideProp = False, s_inHead = False\<rparr>"

definition offer_page :: Page where
  "offer_page =
     \<lparr>URL = ''u'', HTML = [], Text = [], Title = [],
      metaReader = MetaReader_init, schemaReader = offer_final,
      pageReader = PageReader_init\<rparr>"

text \<open>\<^verbatim>\<open><div itemscope><span itemprop="a"><div itemscope>x\<close>.\<close>

definition nested_scope_stream :: "token list" where
  "nested_scope_stream =
     [StartTagToken ''div'' [(''itemscope'', [])],
      StartTagToken ''span'' [(''itemprop'', ''a'')],
      StartTagToken ''div'' [(''itemscope'', [])],
      TextToken ''x'']"

text \<open>
  \<^verbatim>\<open><div itemscope><span itemprop="a" content="c"><div itemscope>\<close>, and the reader
  after it: the property \<open>a\<close> belongs to the outer scope, the inner scope is current.
\<close>

definition nested_content_stream :: "token list" where
  "nested_content_stream =
     [StartTagToken ''div'' [(''itemscope'', [])],
      StartTagToken ''span'' [(''itemprop'', ''a''), (''content'', ''c'')],
      StartTagToken ''div'' [(''itemscope'', [])]]"

definition nested_content_open :: SchemaReader where
  "nested_content_open =
     \<lparr>s_heap = [\<lparr>is_TagName = ''div'', is_ItemType = [], is_ItemProp = [],
                  Props = [\<lparr>ip_TagName = ''span'', ip_ItemProp = ''a'', ip_Content = ''c'',
                            ip_HREF = [], ip_DateTime = []\<rparr>],
                  Children = [1]\<rparr>,
                \<lparr>is_TagName = ''div'', is_ItemType = [], is_ItemProp = [],
                  Props = [], Children = []\<rparr>],
      s_items = [0], s_stack = [0, 1], s_breadcrumbs = [True, False, True],
      s_insideProp = True, s_inHead = False\<rparr>"

text \<open>\<^verbatim>\<open><title>T</title><body> a  b \<close>, and the page after its tokens.\<close>

definition title_stream :: "token list" where
  "title_stream =
     [StartTagToken ''title'' [], TextToken ''T'', EndTagToken ''title'',
      StartTagToken ''body'' [], TextToken '' a  b '']"

definition title_page :: Page where
  "title_page =
     \<lparr>URL = ''u'', HTML = ''h'', Text = [], Title = ''T'',
      metaReader = MetaReader_init, schemaReader = SchemaReader_init,
      pageReader = \<lparr>p_inTitle = False, p_inBody = True, p_inScript = False,
                     p_text = '' a  b ''\<rparr>\<rparr>"

definition title_result :: Page where
  "title_result =
     \<lparr>URL = ''u'', HTML = ''h'', Text = ''a b'', Title = ''T'',
      metaReader = MetaReader_init, schemaReader = SchemaReader_init,
      pageReader = \<lparr>p_inTitle = False, p_inBody = True, p_inScript = False,
                     p_text = '' a b ''\<rparr>\<rparr>"

text \<open>Space, U+00A0, \<open>a\<close>, U+000B, line feed, carriage return, tab, \<open>b\<close>, U+2000, line feed.\<close>

definition spaced_text :: string where
  "spaced_text =
     [CHR 0x20, CHR 0xC2, CHR 0xA0, CHR ''a'', CHR 0x0B, CHR 0x0A, CHR 0x0D, CHR 0x09,
      CHR ''b'', CHR 0xE2, CHR 0x80, CHR 0x80, CHR 0x0A]"

text \<open>The equation of \<open>trim_leading\<close> is recursive without a guard: it is unfolded by hand.\<close>

declare trim_leading.simps [simp del]

section \<open>The Read loop and the single readers\<close>

text \<open>
  \<open>Page.Read\<close> is the dispatch of the tokens followed by \<open>Done\<close>, and what it does
  to the MetaReader and to the SchemaReader is the run of that reader alone over the
  same tokens.
\<close>

lemma Read_eq:
  "Read p ts e = (case Read_tokens p ts of Inl f \<Rightarrow> Inl f
                  | Inr p' \<Rightarrow> Inr (ReaderList_Done p', Some e))"
  by (induction ts arbitrary: p) (auto split: sum.splits)

lemma ReaderList_Done_eq:
  "ReaderList_Done p =
     p\<lparr>pageReader := (pageReader p)\<lparr>p_text := collapse (p_text (pageReader p))\<rparr>,
       Text := normalize_text (p_text (pageReader p))\<rparr>"
  by (simp add: ReaderList_Done_def PageReader_Done_def MetaReader_Done_def
      SchemaReader_Done_def collapse_def normalize_text_def Let_def)

lemma Read_token_metaReader:
  "Read_token p t = Inr p' \<Longrightarrow> MetaReader_step (metaReader p) t = Inr (metaReader p')"
  by (cases t)
     (auto simp: ReaderList_HandleStart_def ReaderList_HandleEnd_def ReaderList_HandleText_def
       PageReader_HandleText_def Let_def split: sum.splits if_splits)

lemma Read_token_schemaReader:
  "Read_token p t = Inr p' \<Longrightarrow> SchemaReader_step (schemaReader p) t = Inr (schemaReader p')"
  by (cases t)
     (auto simp: ReaderList_HandleStart_def ReaderList_HandleEnd_def ReaderList_HandleText_def
       PageReader_HandleText_def Let_def split: sum.splits if_splits)

lemma Read_tokens_metaReader:
  "Read_tokens p ts = Inr p' \<Longrightarrow> MetaReader_run (metaReader p) ts = Inr (metaReader p')"
proof (induction ts arbitrary: p)
  case Nil
  then show ?case by simp
next
  case (Cons t ts)
  then obtain p1 where "Read_token p t = Inr p1" "Read_tokens p1 ts = Inr p'"
    by (auto split: sum.splits)
  with Cons.IH [of p1] Read_token_metaReader [of p t p1] show ?case by simp
qed

lemma Read_tokens_schemaReader:
  "Read_tokens p ts = Inr p' \<Longrightarrow> SchemaReader_run (schemaReader p) ts = Inr (schemaReader p')"
proof (induction ts arbitrary: p)
  case Nil
  then show ?case by simp
next
  case (Cons t ts)
  then obtain p1 where "Read_token p t = Inr p1" "Read_tokens p1 ts = Inr p'"
    by (auto split: sum.splits)
  with Cons.IH [of p1] Read_token_schemaReader [of p t p1] show ?case by simp
qed

lemma Read_metaReader:
  assumes "Read p ts e = Inr (p', err)"
  shows "MetaReader_run (metaReader p) ts = Inr (metaReader p')"
proof -
  from assms obtain q where q: "Read_tokens p ts = Inr q" and p': "p' = ReaderList_Done q"
    by (auto simp: Read_eq split: sum.splits)
  from p' have "metaReader p' = metaReader q" by (simp add: ReaderList_Done_eq)
  with Read_tokens_metaReader [OF q] show ?thesis by simp
qed

lemma Read_schemaReader:
  assumes "Read p ts e = Inr (p', err)"
  shows "SchemaReader_run (schemaReader p) ts = Inr (schemaReader p')"
proof -
  from assms obtain q where q: "Read_tokens p ts = Inr q" and p': "p' = ReaderList_Done q"
    by (auto simp: Read_eq split: sum.splits)
  from p' have "schemaReader p' = schemaReader q" by (simp add: ReaderList_Done_eq)
  with Read_tokens_schemaReader [OF q] show ?thesis by simp
qed

section \<open>MetaReader: the fold nests one level deep\<close>

lemma MetaReader_HandleStart_total: "\<exists>r'. MetaReader_HandleStart r tn a = Inr r'"
  by (auto simp: MetaReader_HandleStart_def Let_def makeCurrentExtra_def MetaReader_pop_def
      MetaReader_current_def MetaReader_next_def MetaReader_set_last_def
      split: option.splits sum.splits if_splits)

lemma one_level_butlast: "one_level ms \<Longrightarrow> one_level (butlast ms)"
  by (auto simp: one_level_def dest: in_set_butlastD)

lemma one_level_snoc:
  "one_level (ms @ [m]) \<longleftrightarrow> one_level ms \<and> (\<forall>e \<in> set (Extra m). Extra e = [])"
  by (auto simp: one_level_def)

lemma one_level_Nil: "one_level []"
  by (simp add: one_level_def)

lemma one_level_single: "one_level [m] \<longleftrightarrow> (\<forall>e \<in> set (Extra m). Extra e = [])"
  by (simp add: one_level_def)

lemma one_level_last:
  "one_level ms \<Longrightarrow> ms \<noteq> [] \<Longrightarrow> e \<in> set (Extra (last ms)) \<Longrightarrow> Extra e = []"
  by (auto simp: one_level_def)

lemma one_level_HandleStart:
  assumes "one_level (m_items r)" and "MetaReader_HandleStart r tn a = Inr r'"
  shows "one_level (m_items r')"
  using assms
  by (auto simp: MetaReader_HandleStart_def Let_def makeCurrentExtra_def MetaReader_pop_def
      MetaReader_current_def MetaReader_next_def MetaReader_set_last_def one_level_snoc
      one_level_butlast one_level_Nil one_level_single
      split: option.splits sum.splits if_splits dest: one_level_last)

lemma one_level_HandleEnd:
  "one_level (m_items r) \<Longrightarrow> one_level (m_items (MetaReader_HandleEnd r tn))"
  by (simp add: MetaReader_HandleEnd_def)

lemma one_level_HandleText:
  "one_level (m_items r) \<Longrightarrow> one_level (m_items (MetaReader_HandleText r tx))"
  by (auto simp: MetaReader_HandleText_def MetaReader_current_def MetaReader_set_last_def
      one_level_snoc one_level_butlast one_level_Nil one_level_single dest: one_level_last)

lemma MetaReader_step_one_level:
  assumes "one_level (m_items r)"
  shows "\<exists>r'. MetaReader_step r t = Inr r' \<and> one_level (m_items r')"
proof (cases t)
  case (StartTagToken tn a)
  then show ?thesis
    using MetaReader_HandleStart_total [of r tn a] one_level_HandleStart [OF assms]
    by auto
next
  case (SelfClosingTagToken tn a)
  then show ?thesis
    using MetaReader_HandleStart_total [of r tn a] one_level_HandleStart [OF assms]
    by (auto simp: one_level_HandleEnd)
qed (simp_all add: assms one_level_HandleEnd one_level_HandleText)

lemma MetaReader_run_one_level:
  "one_level (m_items r) \<Longrightarrow> \<exists>r'. MetaReader_run r ts = Inr r' \<and> one_level (m_items r')"
proof (induction ts arbitrary: r)
  case Nil
  then show ?case by simp
next
  case (Cons t ts)
  from MetaReader_step_one_level [OF Cons.prems, of t]
  obtain r1 where "MetaReader_step r t = Inr r1" and "one_level (m_items r1)" by blast
  with Cons.IH [of r1] show ?case by simp
qed

lemma MetaReader_run_total: "\<exists>r. MetaReader_run MetaReader_init ts = Inr r"
  using MetaReader_run_one_level [of MetaReader_init ts]
  by (auto simp: one_level_def MetaReader_init_def)

lemma og_stream_run:
  "MetaReader_run MetaReader_init og_stream =
     Inr \<lparr>m_items = og_items, m_inside = False, m_inHead = True\<rparr>"
  by code_simp

lemma og_stream_Read: "Read (Page_new ''u'') og_stream EOF = Inr (og_page, Some EOF)"
  by code_simp

text \<open>
  Claim C1.  For every token stream the MetaReader runs to the end without aborting,
  and in its top-level result every entry of every \<open>Extra\<close> list has an empty
  \<open>Extra\<close> list of its own: the fold nests one level deep, never two.  The same holds
  of the metadata of the page whenever \<open>Page.Read\<close> returns.
\<close>

theorem fold_depth_one_level:
  "(\<exists>r. MetaReader_run MetaReader_init ts = Inr r \<and>
        (\<forall>m \<in> set (m_items r). \<forall>e \<in> set (Extra m). Extra e = [])) \<and>
   (Read (Page_new url) ts err = Inr (p, err') \<longrightarrow>
        (\<forall>m \<in> set (m_items (metaReader p)). \<forall>e \<in> set (Extra m). Extra e = []))"
proof -
  obtain r where r: "MetaReader_run MetaReader_init ts = Inr r" "one_level (m_items r)"
    using MetaReader_run_one_level [of MetaReader_init ts]
    by (auto simp: one_level_Nil MetaReader_init_def)
  have "one_level (m_items (metaReader p))" if "Read (Page_new url) ts err = Inr (p, err')"
    using Read_metaReader [OF that] r by (simp add: Page_new_def)
  with r show ?thesis unfolding one_level_def by blast
qed

text \<open>
  C1 at a stream with a chain of prefixed tags: both \<open>og:image:width\<close> and
  \<open>og:image:width:x\<close> sit directly under \<open>og:image\<close>.
\<close>

theorem fold_depth_one_level_witness:
  "MetaReader_run MetaReader_init og_stream =
     Inr \<lparr>m_items = og_items, m_inside = False, m_inHead = True\<rparr> \<and>
   Read (Page_new ''u'') og_stream EOF = Inr (og_page, Some EOF) \<and>
   m_items (metaReader og_page) = og_items \<and>
   length og_items = 1 \<and> length (Extra (og_items ! 0)) = 2 \<and>
   Extra (Extra (og_items ! 0) ! 0) = [] \<and> Extra (Extra (og_items ! 0) ! 1) = []"
  using fold_depth_one_level [of og_stream "''u''" EOF og_page "Some EOF"] og_stream_run
    og_stream_Read
  by (simp add: og_items_def og_page_def)

section \<open>SchemaReader: markers and scopes\<close>

lemma HandleStart_head: "SchemaReader_HandleStart r ''head'' a = r\<lparr>s_inHead := True\<rparr>"
  by (simp add: SchemaReader_HandleStart_def)

lemma HandleStart_inHead:
  "s_inHead r \<Longrightarrow> tn \<noteq> ''head'' \<Longrightarrow> SchemaReader_HandleStart r tn a = r"
  by (simp add: SchemaReader_HandleStart_def)

lemma HandleStart_markers:
  "\<not> s_inHead r \<Longrightarrow> tn \<noteq> ''head'' \<Longrightarrow>
   s_inHead (SchemaReader_HandleStart r tn a) = False \<and>
   (if a = [] then s_breadcrumbs (SchemaReader_HandleStart r tn a) = s_breadcrumbs r \<and>
                   s_stack (SchemaReader_HandleStart r tn a) = s_stack r
    else if has_attr a ''itemscope''
    then s_breadcrumbs (SchemaReader_HandleStart r tn a) = s_breadcrumbs r @ [True] \<and>
         s_stack (SchemaReader_HandleStart r tn a) = s_stack r @ [length (s_heap r)]
    else s_breadcrumbs (SchemaReader_HandleStart r tn a) = s_breadcrumbs r @ [False] \<and>
         s_stack (SchemaReader_HandleStart r tn a) = s_stack r)"
  by (auto simp: SchemaReader_HandleStart_def Let_def SchemaReader_next_def
      SchemaReader_current_def split: option.splits)

lemma balance_inv_init: "balance_inv [] SchemaReader_init"
  by (simp add: balance_inv_def SchemaReader_init_def)

lemma balance_inv_HandleStart:
  assumes "balance_inv os r"
  shows "balance_inv (tn # os) (SchemaReader_HandleStart r tn a)"
proof (cases "tn = ''head''")
  case True
  from assms have "length (s_breadcrumbs r) \<le> length os"
    by (auto simp: balance_inv_def split: if_splits)
  moreover have "tn # os = [] @ ''head'' # os" using True by simp
  ultimately have "\<exists>pre post. tn # os = pre @ ''head'' # post \<and>
      length (s_breadcrumbs r) \<le> length post" by blast
  with assms True show ?thesis
    by (simp add: balance_inv_def HandleStart_head)
next
  case nh: False
  show ?thesis
  proof (cases "s_inHead r")
    case True
    with assms obtain pre post where
      "os = pre @ ''head'' # post" "length (s_breadcrumbs r) \<le> length post"
      by (auto simp: balance_inv_def)
    then have "tn # os = (tn # pre) @ ''head'' # post \<and>
        length (s_breadcrumbs r) \<le> length post"
      by simp
    then have "\<exists>pre post. tn # os = pre @ ''head'' # post \<and>
      length (s_breadcrumbs r) \<le> length post" by blast
    with assms True nh show ?thesis
      by (simp add: balance_inv_def HandleStart_inHead)
  next
    case False
    with assms nh HandleStart_markers [OF False nh, of a] show ?thesis
      by (auto simp: balance_inv_def split: if_splits)
  qed
qed

lemma balance_inv_HandleEnd:
  assumes "balance_inv (tn # os) r"
  shows "\<exists>r'. SchemaReader_HandleEnd r tn = Inr r' \<and> balance_inv os r'"
proof (cases "s_inHead r")
  case True
  with assms obtain pre post where pp:
    "tn # os = pre @ ''head'' # post" "length (s_breadcrumbs r) \<le> length post"
    and st: "length (s_stack r) = length (filter id (s_breadcrumbs r))"
    by (auto simp: balance_inv_def)
  show ?thesis
  proof (cases pre)
    case Nil
    with pp have "tn = ''head''" "os = post" by simp_all
    with True pp st show ?thesis
      by (simp add: SchemaReader_HandleEnd_def balance_inv_def)
  next
    case (Cons x pre')
    with pp have os: "os = pre' @ ''head'' # post" by simp
    then have "length post \<le> length os" by simp
    with True pp st os show ?thesis
      by (auto simp: SchemaReader_HandleEnd_def balance_inv_def)
  qed
next
  case False
  with assms have le: "length (s_breadcrumbs r) \<le> Suc (length os)"
    and st: "length (s_stack r) = length (filter id (s_breadcrumbs r))"
    by (auto simp: balance_inv_def)
  show ?thesis
  proof (cases "s_breadcrumbs r" rule: rev_cases)
    case Nil
    with False st show ?thesis
      by (simp add: SchemaReader_HandleEnd_def balance_inv_def)
  next
    case (snoc bs b)
    with False st le show ?thesis
      by (cases "s_stack r" rule: rev_cases)
         (auto simp: SchemaReader_HandleEnd_def balance_inv_def Let_def SchemaReader_pop_def)
  qed
qed

lemma HandleText_markers:
  "SchemaReader_HandleText r tx = Inr r' \<Longrightarrow>
   s_stack r' = s_stack r \<and> s_breadcrumbs r' = s_breadcrumbs r \<and> s_inHead r' = s_inHead r"
  by (auto simp: SchemaReader_HandleText_def Let_def split: if_splits option.splits)

lemma balance_inv_HandleText:
  "balance_inv os r \<Longrightarrow> SchemaReader_HandleText r tx = Inr r' \<Longrightarrow> balance_inv os r'"
  using HandleText_markers [of r tx r'] by (simp add: balance_inv_def)

lemma balanced_run:
  "balance_inv os r \<Longrightarrow> properly_nested os ts \<Longrightarrow> SchemaReader_run r ts = Inr r' \<Longrightarrow>
   s_stack r' = [] \<and> s_breadcrumbs r' = []"
proof (induction ts arbitrary: os r)
  case Nil
  then show ?case by (auto simp: balance_inv_def split: if_splits)
next
  case (Cons t ts)
  show ?case
  proof (cases t)
    case (StartTagToken tn a)
    with Cons.prems Cons.IH [OF balance_inv_HandleStart [OF Cons.prems(1), of tn a]]
    show ?thesis by simp
  next
    case (EndTagToken tn)
    with Cons.prems(2) obtain os' where os: "os = tn # os'" and n: "properly_nested os' ts"
      by (auto split: list.splits)
    from balance_inv_HandleEnd [of tn os' r] Cons.prems(1) os
    obtain r1 where "SchemaReader_HandleEnd r tn = Inr r1" "balance_inv os' r1" by auto
    with Cons.IH [OF \<open>balance_inv os' r1\<close> n] Cons.prems(3) EndTagToken
    show ?thesis by simp
  next
    case (SelfClosingTagToken tn a)
    from balance_inv_HandleEnd [OF balance_inv_HandleStart [OF Cons.prems(1), of tn a]]
    obtain r1 where "SchemaReader_HandleEnd (SchemaReader_HandleStart r tn a) tn = Inr r1"
      "balance_inv os r1" by auto
    with Cons.IH [OF \<open>balance_inv os r1\<close>] Cons.prems SelfClosingTagToken
    show ?thesis by simp
  next
    case (TextToken tx)
    with Cons.prems obtain r1 where r1: "SchemaReader_HandleText r tx = Inr r1"
      "SchemaReader_run r1 ts = Inr r'" by (auto split: sum.splits)
    from Cons.IH [OF balance_inv_HandleText [OF Cons.prems(1) r1(1)] _ r1(2)]
      Cons.prems(2) TextToken
    show ?thesis by simp
  next
    case (CommentToken c)
    with Cons.prems Cons.IH [OF Cons.prems(1)] show ?thesis by simp
  next
    case (DoctypeToken d)
    with Cons.prems Cons.IH [OF Cons.prems(1)] show ?thesis by simp
  qed
qed

lemma unclosed_stream_run: "SchemaReader_run SchemaReader_init unclosed_stream = Inr scope_open"
  by code_simp

lemma offer_stream_run: "SchemaReader_run SchemaReader_init offer_stream = Inr offer_final"
  by code_simp

lemma offer_stream_nested: "properly_nested [] offer_stream"
  by code_simp

text \<open>
  Claim C2.  On a start tag without attributes \<open>HandleStart\<close> returns before the
  line that appends the marker: apart from the head flag the reader is unchanged, and
  no marker is pushed.  At \<^verbatim>\<open><div itemscope><p>\<close> the marker stack still is
  \<open>[true]\<close> after the start tag \<open>p\<close>, and the end tag \<open>p\<close> then pops the marker and
  the scope of the enclosing \<open>div\<close>.
\<close>

theorem attributeless_start_pushes_no_marker:
  "SchemaReader_HandleStart r tn [] = (if tn = ''head'' then r\<lparr>s_inHead := True\<rparr> else r) \<and>
   SchemaReader_HandleStart scope_open ''p'' [] = scope_open \<and>
   s_breadcrumbs scope_open = [True] \<and>
   SchemaReader_HandleEnd (SchemaReader_HandleStart scope_open ''p'' []) ''p'' =
     Inr (scope_open\<lparr>s_stack := [], s_breadcrumbs := []\<rparr>)"
proof -
  have "SchemaReader_HandleStart scope_open ''p'' [] = scope_open \<and>
   s_breadcrumbs scope_open = [True] \<and>
   SchemaReader_HandleEnd (SchemaReader_HandleStart scope_open ''p'' []) ''p'' =
     Inr (scope_open\<lparr>s_stack := [], s_breadcrumbs := []\<rparr>)"
    by code_simp
  then show ?thesis by (simp add: SchemaReader_HandleStart_def)
qed

text \<open>
  Claim C3 as stated fails: after \<^verbatim>\<open><div itemscope>\<close> with no end tag the stream
  ends with one scope and one marker left on the stacks.
\<close>

theorem unclosed_scope_counterexample:
  "SchemaReader_run SchemaReader_init unclosed_stream = Inr scope_open \<and>
   s_stack scope_open \<noteq> [] \<and> s_breadcrumbs scope_open \<noteq> []"
  using unclosed_stream_run by (simp add: scope_open_def)

lemma offer_stream_Read: "Read (Page_new ''u'') offer_stream EOF = Inr (offer_page, Some EOF)"
  by code_simp

text \<open>
  Claim C3, amended.  For every properly nested token stream (each end tag closes the
  innermost open start tag, and none is left open) that the SchemaReader reads to the
  end, the scope stack and the marker stack are both empty at end-of-stream; so they
  are in the page whenever \<open>Page.Read\<close> returns on such a stream.
\<close>

theorem stacks_empty_when_nested:
  "properly_nested [] ts \<Longrightarrow>
   (SchemaReader_run SchemaReader_init ts = Inr r \<longrightarrow>
      s_stack r = [] \<and> s_breadcrumbs r = []) \<and>
   (Read (Page_new url) ts err = Inr (p, err') \<longrightarrow>
      s_stack (schemaReader p) = [] \<and> s_breadcrumbs (schemaReader p) = [])"
proof -
  assume n: "properly_nested [] ts"
  have "s_stack (schemaReader p) = [] \<and> s_breadcrumbs (schemaReader p) = []"
    if "Read (Page_new url) ts err = Inr (p, err')"
    using Read_schemaReader [OF that] balanced_run [OF balance_inv_init n]
    by (simp add: Page_new_def)
  with balanced_run [OF balance_inv_init n] show ?thesis by blast
qed

text \<open>C3 amended, at \<^verbatim>\<open><div itemscope><p>hi</p><span itemprop="name">X</span></div>\<close>.\<close>

theorem stacks_empty_when_nested_witness:
  "properly_nested [] offer_stream \<and>
   SchemaReader_run SchemaReader_init offer_stream = Inr offer_final \<and>
   Read (Page_new ''u'') offer_stream EOF = Inr (offer_page, Some EOF) \<and>
   schemaReader offer_page = offer_final \<and>
   s_stack offer_final = [] \<and> s_breadcrumbs offer_final = []"
  using stacks_empty_when_nested [OF offer_stream_nested, of offer_final "''u''" EOF
      offer_page "Some EOF"]
    offer_stream_nested offer_stream_run offer_stream_Read
  by (simp add: offer_page_def)

section \<open>Content from attributes and from text\<close>

lemma HandleText_length: "length (m_items (MetaReader_HandleText r tx)) = length (m_items r)"
  by (auto simp: MetaReader_HandleText_def MetaReader_current_def MetaReader_set_last_def)

lemma HandleText_Extra:
  "map Extra (m_items (MetaReader_HandleText r tx)) = map Extra (m_items r)"
proof (cases "m_items r" rule: rev_cases)
  case Nil
  then show ?thesis
    by (simp add: MetaReader_HandleText_def MetaReader_current_def)
next
  case (snoc ms m)
  then show ?thesis
    by (simp add: MetaReader_HandleText_def MetaReader_current_def MetaReader_set_last_def)
qed

lemma HandleText_keeps_content:
  assumes "i < length (m_items r)" and "Content (m_items r ! i) \<noteq> []"
  shows "m_items (MetaReader_HandleText r tx) ! i = m_items r ! i"
proof (cases "m_items r" rule: rev_cases)
  case Nil
  with assms show ?thesis by simp
next
  case (snoc ms m)
  show ?thesis
  proof (cases "i < length ms")
    case True
    with snoc show ?thesis
      by (simp add: MetaReader_HandleText_def MetaReader_current_def MetaReader_set_last_def
          nth_append)
  next
    case False
    with assms snoc have "i = length ms" by simp
    with assms snoc show ?thesis
      by (simp add: MetaReader_HandleText_def MetaReader_current_def)
  qed
qed

lemma HandleStart_keeps:
  assumes "MetaReader_HandleStart r tn a = Inr r'" and "i < length (m_items r)"
  shows "i < length (m_items r') \<and>
    prefix (Extra (m_items r ! i)) (Extra (m_items r' ! i)) \<and>
    Content (m_items r' ! i) = Content (m_items r ! i)"
proof (cases "m_items r" rule: rev_cases)
  case Nil
  with assms show ?thesis by simp
next
  case (snoc ms m)
  with assms show ?thesis
    by (auto simp: MetaReader_HandleStart_def Let_def makeCurrentExtra_def MetaReader_pop_def
        MetaReader_current_def MetaReader_next_def MetaReader_set_last_def nth_append
        butlast_append split: if_splits)
qed

lemma HandleEnd_items: "m_items (MetaReader_HandleEnd r tn) = m_items r"
  by (simp add: MetaReader_HandleEnd_def)

lemma HandleText_keeps:
  assumes "i < length (m_items r)"
  shows "i < length (m_items (MetaReader_HandleText r tx)) \<and>
    prefix (Extra (m_items r ! i)) (Extra (m_items (MetaReader_HandleText r tx) ! i)) \<and>
    (Content (m_items r ! i) \<noteq> [] \<longrightarrow>
       Content (m_items (MetaReader_HandleText r tx) ! i) = Content (m_items r ! i))"
proof -
  have "Extra (m_items (MetaReader_HandleText r tx) ! i) = Extra (m_items r ! i)"
    using HandleText_Extra [of r tx] assms HandleText_length [of r tx]
    by (metis length_map nth_map)
  with assms show ?thesis
    by (simp add: HandleText_length HandleText_keeps_content)
qed

lemma MetaReader_step_keeps:
  assumes "MetaReader_step r t = Inr r'" and "i < length (m_items r)"
  shows "i < length (m_items r') \<and>
    prefix (Extra (m_items r ! i)) (Extra (m_items r' ! i)) \<and>
    (Content (m_items r ! i) \<noteq> [] \<longrightarrow> Content (m_items r' ! i) = Content (m_items r ! i))"
proof (cases t)
  case (StartTagToken tn a)
  with assms HandleStart_keeps [of r tn a r' i] show ?thesis by simp
next
  case (EndTagToken tn)
  with assms show ?thesis by (auto simp: HandleEnd_items)
next
  case (SelfClosingTagToken tn a)
  with assms obtain r1 where "MetaReader_HandleStart r tn a = Inr r1"
    "r' = MetaReader_HandleEnd r1 tn" by (auto split: sum.splits)
  with assms HandleStart_keeps [of r tn a r1 i] show ?thesis by (simp add: HandleEnd_items)
next
  case (TextToken tx)
  with assms HandleText_keeps [of i r tx] show ?thesis by auto
next
  case (CommentToken c)
  with assms show ?thesis by auto
next
  case (DoctypeToken d)
  with assms show ?thesis by auto
qed

lemma MetaReader_run_keeps:
  "MetaReader_run r ts = Inr r' \<Longrightarrow> i < length (m_items r) \<Longrightarrow>
   i < length (m_items r') \<and>
   prefix (Extra (m_items r ! i)) (Extra (m_items r' ! i)) \<and>
   (Content (m_items r ! i) \<noteq> [] \<longrightarrow> Content (m_items r' ! i) = Content (m_items r ! i))"
proof (induction ts arbitrary: r)
  case Nil
  then show ?case by simp
next
  case (Cons t ts)
  from Cons.prems(1) obtain r1 where r1: "MetaReader_step r t = Inr r1"
    "MetaReader_run r1 ts = Inr r'" by (auto split: sum.splits)
  from MetaReader_step_keeps [OF r1(1) Cons.prems(2)]
  have s: "i < length (m_items r1)" "prefix (Extra (m_items r ! i)) (Extra (m_items r1 ! i))"
    "Content (m_items r ! i) \<noteq> [] \<longrightarrow> Content (m_items r1 ! i) = Content (m_items r ! i)"
    by simp_all
  from Cons.IH [OF r1(2) s(1)] s show ?case
    by (auto intro: prefix_order.trans)
qed

lemma rock_later_run: "MetaReader_run rock_reader rock_later = Inr rock_final"
  by code_simp

lemma heap_valid_init: "heap_valid SchemaReader_init"
  by (simp add: heap_valid_def SchemaReader_init_def)

lemma heap_valid_HandleStart: "heap_valid r \<Longrightarrow> heap_valid (SchemaReader_HandleStart r tn a)"
  by (auto simp: heap_valid_def SchemaReader_HandleStart_def Let_def SchemaReader_next_def
      SchemaReader_current_def less_Suc_eq split: option.splits)

lemma heap_valid_HandleEnd:
  "heap_valid r \<Longrightarrow> SchemaReader_HandleEnd r tn = Inr r' \<Longrightarrow> heap_valid r'"
  by (auto simp: heap_valid_def SchemaReader_HandleEnd_def Let_def SchemaReader_pop_def
      split: if_splits dest!: in_set_butlastD)

lemma heap_valid_HandleText:
  "heap_valid r \<Longrightarrow> SchemaReader_HandleText r tx = Inr r' \<Longrightarrow> heap_valid r'"
  by (auto simp: heap_valid_def SchemaReader_HandleText_def Let_def
      split: if_splits option.splits)

lemma heap_valid_step:
  "heap_valid r \<Longrightarrow> SchemaReader_step r t = Inr r' \<Longrightarrow> heap_valid r'"
  by (cases t) (auto intro: heap_valid_HandleStart heap_valid_HandleEnd heap_valid_HandleText)

lemma heap_valid_run:
  "heap_valid r \<Longrightarrow> SchemaReader_run r ts = Inr r' \<Longrightarrow> heap_valid r'"
proof (induction ts arbitrary: r)
  case Nil
  then show ?case by simp
next
  case (Cons t ts)
  then obtain r1 where "SchemaReader_step r t = Inr r1" "SchemaReader_run r1 ts = Inr r'"
    by (auto split: sum.splits)
  with Cons show ?case using heap_valid_step by blast
qed

lemma current_allocated:
  assumes "SchemaReader_run SchemaReader_init ts = Inr r" and "SchemaReader_current r = Some s"
  shows "s < length (s_heap r)"
  using heap_valid_run [OF heap_valid_init assms(1)] assms(2)
  by (auto simp: heap_valid_def SchemaReader_current_def split: if_splits)

lemma has_attr_nonempty: "has_attr a k \<Longrightarrow> a \<noteq> []"
  by (auto simp: has_attr_def)

lemma HandleStart_itemprop:
  assumes "\<not> s_inHead r" "tn \<noteq> ''head''" "\<not> has_attr a ''itemscope''"
    "has_attr a ''itemprop''" "SchemaReader_current r = Some s"
  shows "SchemaReader_HandleStart r tn a =
     r\<lparr>s_heap := (s_heap r)[s := (s_heap r ! s)\<lparr>Props := Props (s_heap r ! s) @
           [\<lparr>ip_TagName = tn, ip_ItemProp = attr a ''itemprop'',
             ip_Content = attr a ''content'', ip_HREF = attr a ''href'',
             ip_DateTime = attr a ''datetime''\<rparr>]\<rparr>],
        s_insideProp := True,
        s_breadcrumbs := s_breadcrumbs r @ [False]\<rparr>"
  using assms has_attr_nonempty [of a "''itemprop''"]
  by (simp add: SchemaReader_HandleStart_def Let_def)

lemma HandleText_inside:
  assumes "s_insideProp r" "SchemaReader_current r = Some s" "s < length (s_heap r)"
    "Props (s_heap r ! s) \<noteq> []"
  shows "\<exists>r'. SchemaReader_HandleText r tx = Inr r' \<and>
     Props (s_heap r' ! s) =
       butlast (Props (s_heap r ! s)) @ [(last (Props (s_heap r ! s)))\<lparr>ip_Content := tx\<rparr>]"
  using assms by (simp add: SchemaReader_HandleText_def Let_def)

lemma alice_stream_run: "SchemaReader_run SchemaReader_init alice_stream = Inr alice_open"
  by code_simp

lemma alice_text_run:
  "SchemaReader_HandleText alice_open ''Alice Jones'' =
     Inr (alice_open\<lparr>s_heap := [\<lparr>is_TagName = ''div'', is_ItemType = [], is_ItemProp = [],
            Props = [alice_prop ''Alice Jones''], Children = []\<rparr>]\<rparr>)"
  by code_simp

lemma nested_content_run:
  "SchemaReader_run SchemaReader_init nested_content_stream = Inr nested_content_open \<and>
   s_insideProp nested_content_open \<and>
   Props (s_heap nested_content_open ! 0) =
     [\<lparr>ip_TagName = ''span'', ip_ItemProp = ''a'', ip_Content = ''c'',
       ip_HREF = [], ip_DateTime = []\<rparr>] \<and>
   SchemaReader_HandleText nested_content_open ''x'' =
     Inl (Fatal ''No prop to set content from text node'')"
  by code_simp

text \<open>
  Claim C4.  The \<open>Meta\<close> half holds: a text event changes no \<open>Meta\<close> whose
  \<open>Content\<close> is non-empty (the top-level sequence keeps its length, every \<open>Extra\<close>
  list stays as it is, every top-level item with non-empty content is left unchanged),
  and through any later events a top-level item with non-empty content keeps its place
  and its content.  The \<open>ItemProp\<close> half holds only where the current scope has a
  property: there a text event received while \<open>insideProp\<close> is set overwrites the
  \<open>Content\<close> of the most recently appended \<open>ItemProp\<close>, whatever its content, href
  and datetime were.  It fails at
  \<^verbatim>\<open><div itemscope><span itemprop="a" content="c"><div itemscope>x\<close>: the text arrives
  inside the property \<open>a\<close> with \<open>insideProp\<close> set, the current scope is the inner one
  without properties, and \<open>HandleText\<close> ends the process instead of overwriting the
  content \<open>c\<close>.
\<close>

theorem attribute_precedence:
  "length (m_items (MetaReader_HandleText r tx)) = length (m_items r) \<and>
   map Extra (m_items (MetaReader_HandleText r tx)) = map Extra (m_items r) \<and>
   (\<forall>i < length (m_items r). Content (m_items r ! i) \<noteq> [] \<longrightarrow>
      m_items (MetaReader_HandleText r tx) ! i = m_items r ! i) \<and>
   (MetaReader_run r us = Inr r' \<and> j < length (m_items r) \<and>
    Content (m_items r ! j) \<noteq> [] \<longrightarrow>
      j < length (m_items r') \<and> Content (m_items r' ! j) = Content (m_items r ! j)) \<and>
   (SchemaReader_run SchemaReader_init ts = Inr sr \<and> s_insideProp sr \<and>
    SchemaReader_current sr = Some s \<and> Props (s_heap sr ! s) \<noteq> [] \<longrightarrow>
      (\<exists>sr'. SchemaReader_HandleText sr tx' = Inr sr' \<and>
         Props (s_heap sr' ! s) =
           butlast (Props (s_heap sr ! s)) @
             [(last (Props (s_heap sr ! s)))\<lparr>ip_Content := tx'\<rparr>])) \<and>
   SchemaReader_run SchemaReader_init nested_content_stream = Inr nested_content_open \<and>
   s_insideProp nested_content_open \<and>
   Props (s_heap nested_content_open ! 0) =
     [\<lparr>ip_TagName = ''span'', ip_ItemProp = ''a'', ip_Content = ''c'',
       ip_HREF = [], ip_DateTime = []\<rparr>] \<and>
   SchemaReader_HandleText nested_content_open ''x'' =
     Inl (Fatal ''No prop to set content from text node'')"
  using HandleText_length [of r tx] HandleText_Extra [of r tx]
    HandleText_keeps_content [of _ r tx] HandleText_inside [of sr s tx']
    current_allocated [of ts sr s] MetaReader_run_keeps [of r us r' j]
    nested_content_run
  by blast

text \<open>
  C4 at a \<open>Meta\<close> with content \<open>The Rock\<close> from its attribute, and at an \<open>ItemProp\<close>
  with content \<open>c\<close> and href \<open>alice.html\<close> from its attributes that is the last
  property of the current scope.
\<close>

theorem attribute_precedence_witness:
  "Content (m_items rock_reader ! 0) \<noteq> [] \<and>
   m_items (MetaReader_HandleText rock_reader ''x'') ! 0 = Meta ''og:title'' ''The Rock'' [] [] \<and>
   MetaReader_run rock_reader rock_later = Inr rock_final \<and>
   Content (m_items rock_final ! 0) = ''The Rock'' \<and>
   SchemaReader_run SchemaReader_init alice_stream = Inr alice_open \<and>
   s_insideProp alice_open \<and> SchemaReader_current alice_open = Some 0 \<and>
   Props (s_heap alice_open ! 0) = [alice_prop ''c''] \<and>
   (\<exists>sr'. SchemaReader_HandleText alice_open ''Alice Jones'' = Inr sr' \<and>
      Props (s_heap sr' ! 0) = [alice_prop ''Alice Jones''])"
  using attribute_precedence [where r = rock_reader and tx = "''x''" and us = rock_later
      and r' = rock_final and j = 0 and ts = alice_stream and sr = alice_open and s = 0
      and tx' = "''Alice Jones''"]
    alice_stream_run rock_later_run
  by (simp add: rock_reader_def rock_final_def alice_open_def alice_prop_def
      SchemaReader_current_def)

text \<open>
  Claim C5 as stated fails: the \<open>ItemProp\<close> of
  \<^verbatim>\<open><a itemprop="url" href="alice.html" content="c">\<close> has content and href from its
  attributes, and the text event that follows still overwrites its content.
\<close>

theorem itemprop_overwritten_counterexample:
  "SchemaReader_run SchemaReader_init alice_stream = Inr alice_open \<and>
   Props (s_heap alice_open ! 0) = [alice_prop ''c''] \<and>
   SchemaReader_HandleText alice_open ''Alice Jones'' =
     Inr (alice_open\<lparr>s_heap := [\<lparr>is_TagName = ''div'', is_ItemType = [], is_ItemProp = [],
            Props = [alice_prop ''Alice Jones''], Children = []\<rparr>]\<rparr>)"
  using alice_stream_run alice_text_run by (simp add: alice_open_def alice_prop_def)

text \<open>
  Claim C5, amended.  For every \<open>ItemProp\<close> created from a start tag that carries
  \<open>itemprop\<close> and no \<open>itemscope\<close>, outside the head and inside an active scope, a
  text event that follows sets its \<open>Content\<close> to the text whether or not an
  attribute-sourced content, href or datetime value was present; href and datetime
  keep their attribute values.
\<close>

theorem itemprop_text_overwrites:
  assumes "SchemaReader_run SchemaReader_init ts = Inr r"
    and "\<not> s_inHead r" and "tn \<noteq> ''head''"
    and "\<not> has_attr a ''itemscope''" and "has_attr a ''itemprop''"
    and "SchemaReader_current r = Some s"
  shows "\<exists>r'. SchemaReader_HandleText (SchemaReader_HandleStart r tn a) tx = Inr r' \<and>
     Props (s_heap r' ! s) = Props (s_heap r ! s) @
       [\<lparr>ip_TagName = tn, ip_ItemProp = attr a ''itemprop'', ip_Content = tx,
         ip_HREF = attr a ''href'', ip_DateTime = attr a ''datetime''\<rparr>]"
proof -
  have s: "s < length (s_heap r)"
    by (rule current_allocated [OF assms(1) assms(6)])
  let ?r1 = "SchemaReader_HandleStart r tn a"
  have r1: "?r1 = r\<lparr>s_heap := (s_heap r)[s := (s_heap r ! s)\<lparr>Props := Props (s_heap r ! s) @
           [\<lparr>ip_TagName = tn, ip_ItemProp = attr a ''itemprop'',
             ip_Content = attr a ''content'', ip_HREF = attr a ''href'',
             ip_DateTime = attr a ''datetime''\<rparr>]\<rparr>],
        s_insideProp := True,
        s_breadcrumbs := s_breadcrumbs r @ [False]\<rparr>"
    by (rule HandleStart_itemprop [OF assms(2-6)])
  have "s_insideProp ?r1" "SchemaReader_current ?r1 = Some s" "s < length (s_heap ?r1)"
    "Props (s_heap ?r1 ! s) = Props (s_heap r ! s) @
           [\<lparr>ip_TagName = tn, ip_ItemProp = attr a ''itemprop'',
             ip_Content = attr a ''content'', ip_HREF = attr a ''href'',
             ip_DateTime = attr a ''datetime''\<rparr>]"
    using s assms(6) by (auto simp: r1 SchemaReader_current_def split: if_splits)
  with HandleText_inside [of ?r1 s tx] show ?thesis by simp
qed

text \<open>C5 amended, at \<^verbatim>\<open><div itemscope><a itemprop="url" href="alice.html" content="c">Alice Jones\<close>.\<close>

theorem itemprop_text_overwrites_witness:
  "SchemaReader_run SchemaReader_init unclosed_stream = Inr scope_open \<and>
   \<not> s_inHead scope_open \<and> \<not> has_attr alice_attrs ''itemscope'' \<and>
   has_attr alice_attrs ''itemprop'' \<and> SchemaReader_current scope_open = Some 0 \<and>
   attr alice_attrs ''content'' = ''c'' \<and>
   (\<exists>r'. SchemaReader_HandleText (SchemaReader_HandleStart scope_open ''a'' alice_attrs)
            ''Alice Jones'' = Inr r' \<and>
      Props (s_heap r' ! 0) = [alice_prop ''Alice Jones''])"
  using itemprop_text_overwrites [of unclosed_stream scope_open "''a''" alice_attrs 0
      "''Alice Jones''"] unclosed_stream_run
  by (simp add: scope_open_def alice_attrs_def alice_prop_def SchemaReader_current_def
      has_attr_def attr_def)

text \<open>
  Claim C6, at \<^verbatim>\<open><head><meta property="og:image" content="x"/><meta property="og:image:width">300\<close>.
  The second tag is folded into the \<open>Extra\<close> of the first.  \<open>HandleText\<close> reads
  \<open>current\<close>, the last top-level item, which is the first tag and not the folded one:
  the folded \<open>Meta\<close> keeps its empty content and the text is dropped.  When the first
  tag has no content either, the text becomes the content of the first tag.
\<close>

theorem text_after_fold_misses_folded_meta:
  "MetaReader_run MetaReader_init fold_text_stream =
     Inr \<lparr>m_items = [Meta ''og:image'' ''x'' [] [Meta ''og:image:width'' [] [] []]],
          m_inside = True, m_inHead = True\<rparr> \<and>
   MetaReader_run MetaReader_init fold_text_stream2 =
     Inr \<lparr>m_items = [Meta ''og:image'' ''300'' [] [Meta ''og:image:width'' [] [] []]],
          m_inside = True, m_inHead = True\<rparr>"
  by code_simp

section \<open>Text normalization is idempotent\<close>

lemma ReplaceAll_dropWhile_head:
  "ReplaceAll c (dropWhile c xs) repl = [] \<or>
   \<not> c (hd (ReplaceAll c (dropWhile c xs) repl))"
proof (cases "dropWhile c xs")
  case Nil
  then have "ReplaceAll c (dropWhile c xs) repl = []" by (simp only: ReplaceAll.simps)
  then show ?thesis by blast
next
  case (Cons y ys)
  then have "\<not> c y" using hd_dropWhile [of c xs] by auto
  with Cons show ?thesis by simp
qed

lemma squeezed_Cons_space:
  "squeezed ys \<Longrightarrow> ys = [] \<or> \<not> isReSpace (hd ys) \<Longrightarrow> squeezed (CHR 0x20 # ys)"
  by (cases ys) (auto simp: isReSpace_def)

lemma squeezed_Cons_other:
  "squeezed ys \<Longrightarrow> \<not> isReSpace x \<Longrightarrow> squeezed (x # ys)"
  by (cases ys) auto

lemma squeezed_ReplaceAll: "squeezed (ReplaceAll isReSpace s [CHR 0x20])"
proof (induction isReSpace s "[CHR 0x20]" rule: ReplaceAll.induct)
  case 1
  then show ?case by simp
next
  case (2 x xs)
  show ?case
  proof (cases "isReSpace x")
    case True
    with 2 ReplaceAll_dropWhile_head [of isReSpace xs "[CHR 0x20]"] show ?thesis
      by (simp add: squeezed_Cons_space)
  next
    case False
    with 2 show ?thesis by (simp add: squeezed_Cons_other)
  qed
qed

lemma ReplaceAll_squeezed: "squeezed s \<Longrightarrow> ReplaceAll isReSpace s [CHR 0x20] = s"
  by (induction s rule: squeezed.induct) auto

lemma ReplaceAll_no_match: "\<forall>x \<in> set s. \<not> c x \<Longrightarrow> ReplaceAll c s repl = s"
  by (induction s) auto

lemma squeezed_no_linefeed: "squeezed s \<Longrightarrow> \<forall>x \<in> set s. \<not> isLineFeed x"
  by (induction s rule: squeezed.induct) (auto simp: isLineFeed_def isReSpace_def)

lemma collapse_squeezed: "squeezed s \<Longrightarrow> collapse s = s"
  by (simp add: collapse_def ReplaceAll_no_match [OF squeezed_no_linefeed] ReplaceAll_squeezed)

lemma squeezed_collapse: "squeezed (collapse t)"
  by (simp add: collapse_def squeezed_ReplaceAll)

lemma squeezed_tl: "squeezed s \<Longrightarrow> squeezed (tl s)"
  by (induction s rule: squeezed.induct) auto

lemma squeezed_drop: "squeezed s \<Longrightarrow> squeezed (drop k s)"
proof (induction k arbitrary: s)
  case 0
  then show ?case by simp
next
  case (Suc k)
  then show ?case by (cases s) (auto dest: squeezed_tl)
qed

lemma squeezed_take: "squeezed s \<Longrightarrow> squeezed (take k s)"
proof (induction s arbitrary: k rule: squeezed.induct)
  case 1
  then show ?case by simp
next
  case (2 x)
  then show ?case by (cases k) auto
next
  case (3 x y zs)
  show ?case
  proof (cases k)
    case 0
    then show ?thesis by simp
  next
    case (Suc j)
    with 3(1) [of j] 3(2) show ?thesis by (cases j) auto
  qed
qed

lemma trim_leading_drop: "\<exists>k. trim_leading encs s = drop k s"
proof (induction encs s rule: trim_leading.induct)
  case (1 encs s)
  show ?case
  proof (cases "leading_width encs s = 0")
    case True
    then have "trim_leading encs s = drop 0 s" by (simp add: trim_leading.simps)
    then show ?thesis by blast
  next
    case False
    with 1 obtain k where "trim_leading encs (drop (leading_width encs s) s) =
      drop k (drop (leading_width encs s) s)" by blast
    with False have "trim_leading encs s = drop (leading_width encs s + k) s"
      by (subst trim_leading.simps) (simp add: add.commute)
    then show ?thesis by blast
  qed
qed

lemma trim_leading_done: "leading_width encs (trim_leading encs s) = 0"
proof (induction encs s rule: trim_leading.induct)
  case (1 encs s)
  then show ?case by (subst trim_leading.simps) simp
qed

lemma trim_leading_fixed: "leading_width encs s = 0 \<Longrightarrow> trim_leading encs s = s"
  by (subst trim_leading.simps) simp

lemma trim_leading_idem: "trim_leading encs (trim_leading encs s) = trim_leading encs s"
  by (simp add: trim_leading_fixed trim_leading_done)

lemma leading_width_0_iff:
  "leading_width encs s = 0 \<longleftrightarrow> (\<forall>e \<in> set encs. \<not> (e \<noteq> [] \<and> prefix e s))"
  by (auto simp: leading_width_def find_None_iff find_Some_iff split: option.splits)

lemma leading_width_take: "leading_width encs s = 0 \<Longrightarrow> leading_width encs (take k s) = 0"
  unfolding leading_width_0_iff
  by (meson prefix_order.trans take_is_prefix)

lemma TrimRight_take: "\<exists>k. TrimRight s = take k s"
proof -
  obtain k where "trim_leading (map rev space_encodings) (rev s) = drop k (rev s)"
    using trim_leading_drop by blast
  then have "TrimRight s = take (length s - k) s"
    by (simp add: TrimRight_def rev_drop)
  then show ?thesis by blast
qed

lemma TrimLeft_drop: "\<exists>k. TrimLeft s = drop k s"
  unfolding TrimLeft_def by (rule trim_leading_drop)

lemma TrimRight_idem: "TrimRight (TrimRight s) = TrimRight s"
  by (simp add: TrimRight_def trim_leading_idem)

lemma TrimLeft_TrimRight:
  assumes "leading_width space_encodings s = 0"
  shows "TrimLeft (TrimRight s) = TrimRight s"
proof -
  obtain k where k: "TrimRight s = take k s" using TrimRight_take by blast
  from assms have "leading_width space_encodings (take k s) = 0" by (rule leading_width_take)
  with k show ?thesis by (simp add: TrimLeft_def trim_leading_fixed)
qed

lemma TrimSpace_idem: "TrimSpace (TrimSpace s) = TrimSpace s"
proof -
  have "leading_width space_encodings (TrimLeft s) = 0"
    by (simp add: TrimLeft_def trim_leading_done)
  then have "TrimLeft (TrimRight (TrimLeft s)) = TrimRight (TrimLeft s)"
    by (rule TrimLeft_TrimRight)
  then show ?thesis by (simp add: TrimSpace_def TrimRight_idem)
qed

lemma squeezed_TrimSpace: "squeezed s \<Longrightarrow> squeezed (TrimSpace s)"
proof -
  assume s: "squeezed s"
  obtain j where j: "TrimLeft s = drop j s" using TrimLeft_drop by blast
  obtain k where k: "TrimRight (TrimLeft s) = take k (TrimLeft s)" using TrimRight_take by blast
  from s have "squeezed (take k (drop j s))" by (intro squeezed_take squeezed_drop)
  with j k show ?thesis by (simp add: TrimSpace_def)
qed

lemma squeezed_normalize_text: "squeezed (normalize_text t)"
  unfolding normalize_text_def by (rule squeezed_TrimSpace [OF squeezed_collapse])

lemma PageReader_Done_Text: "Text (PageReader_Done p) = normalize_text (p_text (pageReader p))"
  by (simp add: PageReader_Done_def normalize_text_def collapse_def Let_def)

lemma PageReader_Done_twice: "PageReader_Done (PageReader_Done p) = PageReader_Done p"
proof -
  have "collapse (collapse (p_text (pageReader p))) = collapse (p_text (pageReader p))"
    by (rule collapse_squeezed [OF squeezed_collapse])
  then show ?thesis
    by (simp add: PageReader_Done_def Let_def collapse_def)
qed

lemma spaced_text_normalized: "normalize_text spaced_text = [CHR ''a'', CHR 0x0B, CHR 0x20, CHR ''b'']"
  by code_simp

text \<open>
  Claim C7.  The normalization of \<open>PageReader.Done\<close> (runs of line feeds and carriage
  returns to one line feed, then runs of white space to one space, then trimming) is
  idempotent on every byte sequence: the \<open>Text\<close> that \<open>Done\<close> writes is the
  normalization of the collected text, normalizing twice gives the same as once, and a
  second \<open>Done\<close> changes nothing.
\<close>

theorem normalize_text_idempotent:
  "normalize_text (normalize_text t) = normalize_text t \<and>
   Text (PageReader_Done p) = normalize_text (p_text (pageReader p)) \<and>
   PageReader_Done (PageReader_Done p) = PageReader_Done p"
proof -
  have "collapse (normalize_text t) = normalize_text t"
    by (rule collapse_squeezed [OF squeezed_normalize_text])
  then have "normalize_text (normalize_text t) = TrimSpace (normalize_text t)"
    by (simp add: normalize_text_def)
  then have "normalize_text (normalize_text t) = normalize_text t"
    by (simp add: normalize_text_def TrimSpace_idem)
  then show ?thesis
    by (simp add: PageReader_Done_Text PageReader_Done_twice)
qed

text \<open>C7 at a text with ASCII and Unicode white space at both ends and inside.\<close>

theorem normalize_text_idempotent_witness:
  "normalize_text spaced_text = [CHR ''a'', CHR 0x0B, CHR 0x20, CHR ''b''] \<and>
   normalize_text [CHR ''a'', CHR 0x0B, CHR 0x20, CHR ''b''] = [CHR ''a'', CHR 0x0B, CHR 0x20, CHR ''b'']"
  using normalize_text_idempotent [of spaced_text] spaced_text_normalized by simp

section \<open>The Read loop and Scrape\<close>

lemma Read_never_nil: "Read p ts e \<noteq> Inr (p', None)"
  by (simp add: Read_eq split: sum.splits)

lemma title_stream_run: "Read_tokens ((Page_new ''u'')\<lparr>HTML := ''h''\<rparr>) title_stream = Inr title_page"
  by code_simp

lemma title_page_Done: "ReaderList_Done title_page = title_result"
  by code_simp

text \<open>
  Claim C8.  When the loop of \<open>Page.Read\<close> reaches the tokenizer's \<open>ErrorToken\<close>
  (no reader has ended the process before), \<open>Done\<close> is called on all readers and the
  tokenizer's error \<open>e\<close> is returned unchanged, for \<open>io.EOF\<close> and for any other error
  alike; the page keeps the title, the metadata and the microdata accumulated so far,
  and its text is the normalization of the text accumulated so far.  \<open>Scrape\<close> turns
  \<open>io.EOF\<close> into success (a \<open>nil\<close> error) and returns any other error unchanged,
  with the same page in both cases.
\<close>

theorem end_of_stream_and_errors:
  assumes "Read_tokens p ts = Inr p'"
  shows "Read p ts e = Inr (ReaderList_Done p', Some e) \<and>
    Title (ReaderList_Done p') = Title p' \<and>
    Text (ReaderList_Done p') = normalize_text (p_text (pageReader p')) \<and>
    metaReader (ReaderList_Done p') = metaReader p' \<and>
    schemaReader (ReaderList_Done p') = schemaReader p' \<and>
    (get url = Inr (Inr html) \<and> tokenize html = (ts, e) \<and>
     p = (Page_new url)\<lparr>HTML := html\<rparr> \<longrightarrow>
       Scrape get tokenize url =
         Inr (ReaderList_Done p', if e = EOF then None else Some e))"
  using assms by (auto simp: Read_eq ReaderList_Done_eq Scrape_def Let_def)

text \<open>
  C8 at \<^verbatim>\<open><title>T</title><body> a  b \<close> cut short by an error other than
  \<open>io.EOF\<close>: the error comes back unchanged, with the title and the normalized text.
\<close>

theorem end_of_stream_and_errors_witness:
  "Read_tokens ((Page_new ''u'')\<lparr>HTML := ''h''\<rparr>) title_stream = Inr title_page \<and>
   Read ((Page_new ''u'')\<lparr>HTML := ''h''\<rparr>) title_stream (OtherError ''x'') =
     Inr (title_result, Some (OtherError ''x'')) \<and>
   Title title_result = ''T'' \<and> Text title_result = ''a b'' \<and>
   Scrape (\<lambda>u. Inr (Inr ''h'')) (\<lambda>b. (title_stream, OtherError ''x'')) ''u'' =
     Inr (title_result, Some (OtherError ''x'')) \<and>
   Scrape (\<lambda>u. Inr (Inr ''h'')) (\<lambda>b. (title_stream, EOF)) ''u'' = Inr (title_result, None)"
  using end_of_stream_and_errors [OF title_stream_run, of "OtherError ''x''"
      "\<lambda>u. Inr (Inr ''h'')" "''u''" "''h''" "\<lambda>b. (title_stream, OtherError ''x'')"]
    end_of_stream_and_errors [OF title_stream_run, of EOF
      "\<lambda>u. Inr (Inr ''h'')" "''u''" "''h''" "\<lambda>b. (title_stream, EOF)"]
    title_stream_run title_page_Done
  by (simp add: title_result_def)

text \<open>
  Claim C9.  The abort in \<open>makeCurrentExtra\<close> is unreachable: the MetaReader runs
  every token stream to the end.  The abort in \<open>SchemaReader.HandleText\<close> is reached
  at \<^verbatim>\<open><div itemscope><span itemprop="a"><div itemscope>x\<close>: the start tag of the
  inner scope pushes a scope without properties and leaves \<open>insideProp\<close> set.
\<close>

theorem text_in_nested_scope_aborts:
  "(\<exists>r. MetaReader_run MetaReader_init ts = Inr r) \<and>
   SchemaReader_run SchemaReader_init nested_scope_stream =
     Inl (Fatal ''No prop to set content from text node'')"
proof -
  have "SchemaReader_run SchemaReader_init nested_scope_stream =
     Inl (Fatal ''No prop to set content from text node'')"
    by code_simp
  with MetaReader_run_total [of ts] show ?thesis by simp
qed

text \<open>
  Claim C10.  \<open>Page.Read\<close> never returns \<open>nil\<close>: when the dispatch of the tokens
  comes to its end it returns the tokenizer's terminating error.  It does not do so
  for every input: at \<^verbatim>\<open><div itemscope><span itemprop="a"><div itemscope>x\<close> the
  SchemaReader ends the process before the loop reaches the end of the stream, and
  \<open>Read\<close> does not return.
\<close>

theorem Read_aborts_before_stream_end:
  "Read p ts e \<noteq> Inr (p', None) \<and>
   Read p ts e = (case Read_tokens p ts of Inl f \<Rightarrow> Inl f
                  | Inr q \<Rightarrow> Inr (ReaderList_Done q, Some e)) \<and>
   Read (Page_new []) nested_scope_stream EOF =
     Inl (Fatal ''No prop to set content from text node'')"
proof -
  have "Read (Page_new []) nested_scope_stream EOF =
     Inl (Fatal ''No prop to set content from text node'')"
    by code_simp
  with Read_never_nil [of p ts e p'] Read_eq [of p ts e] show ?thesis by simp
qed

end
